theory Spec2Isabelle
  imports Main
begin

section \<open>JavaScript strings\<close>

text \<open>
  A JavaScript string is modelled as a \<^typ>\<open>string\<close>: one \<^typ>\<open>char\<close> per code unit,
  for code units below 256. The white space that \<open>String.prototype.trim\<close> removes is,
  in that range, TAB, LF, VT, FF, CR, SPACE and NO-BREAK SPACE.
\<close>

definition isWhiteSpace :: "char \<Rightarrow> bool" where
  "isWhiteSpace c =
     (c \<in> set [CHR 0x09, CHR 0x0A, CHR 0x0B, CHR 0x0C, CHR 0x0D, CHR 0x20, CHR 0xA0])"

definition trimStart :: "string \<Rightarrow> string" where
  "trimStart s = dropWhile isWhiteSpace s"

definition trimEnd :: "string \<Rightarrow> string" where
  "trimEnd s = rev (dropWhile isWhiteSpace (rev s))"

definition trim :: "string \<Rightarrow> string" where
  "trim s = trimEnd (trimStart s)"

definition startsWith :: "string \<Rightarrow> string \<Rightarrow> bool" where
  "startsWith s p = (take (length p) s = p)"

definition substring :: "string \<Rightarrow> nat \<Rightarrow> string" where
  "substring s n = drop n s"

text \<open>
  \<open>s.replace(pat, rep)\<close> with a string pattern: the first occurrence of \<open>pat\<close> in \<open>s\<close>
  is replaced, and \<open>s\<close> is returned unchanged when there is none. The program only
  replaces by the empty string, so the \<open>$\<close> patterns of a replacement are not modelled.
\<close>

fun replace :: "string \<Rightarrow> string \<Rightarrow> string \<Rightarrow> string" where
  "replace [] pat rep = (if pat = [] then rep else [])"
| "replace (c # cs) pat rep =
     (if startsWith (c # cs) pat then rep @ drop (length pat) (c # cs)
      else c # replace cs pat rep)"

section \<open>The POSIX flavour of Node's \<open>path\<close> module\<close>

text \<open>
  The program runs on paths of the form \<open>uri.path\<close>, which are separated by \<open>/\<close>.
  The functions below follow \<open>path.posix\<close> of Node.js. The current working directory,
  which \<open>path.resolve\<close> reads from the process, is a parameter \<open>cwd\<close>.
\<close>

definition path_isAbsolute :: "string \<Rightarrow> bool" where
  "path_isAbsolute p = (p \<noteq> [] \<and> hd p = CHR ''/'')"

text \<open>\<open>path.parse(p).root\<close>: \<open>/\<close> for an absolute path, the empty string otherwise.\<close>

definition path_parse_root :: "string \<Rightarrow> string" where
  "path_parse_root p = (if path_isAbsolute p then ''/'' else [])"

text \<open>
  \<open>path.dirname\<close> scans the path from its last index down to index 1, with the flag
  \<open>matchedSlash\<close> initially true, and stops at the first separator seen after a
  character that is not a separator.
\<close>

fun dirname_scan :: "string \<Rightarrow> nat \<Rightarrow> bool \<Rightarrow> nat option" where
  "dirname_scan p 0 matchedSlash = None"
| "dirname_scan p (Suc i) matchedSlash =
     (if p ! Suc i = CHR ''/''
      then (if \<not> matchedSlash then Some (Suc i) else dirname_scan p i matchedSlash)
      else dirname_scan p i False)"

definition path_dirname :: "string \<Rightarrow> string" where
  "path_dirname p =
     (if p = [] then ''.''
      else
        let hasRoot = (hd p = CHR ''/'') in
        case dirname_scan p (length p - 1) True of
          None \<Rightarrow> (if hasRoot then ''/'' else ''.'')
        | Some end \<Rightarrow> (if hasRoot \<and> end = 1 then ''//'' else take end p))"

text \<open>Splitting at every separator, as \<open>p.split("/")\<close> does: \<open>a//b\<close> has an empty segment.\<close>

fun split_slash :: "string \<Rightarrow> string list" where
  "split_slash [] = [[]]"
| "split_slash (c # cs) =
     (case split_slash cs of
        [] \<Rightarrow> []
      | seg # segs \<Rightarrow> (if c = CHR ''/'' then [] # seg # segs else (c # seg) # segs))"

fun join_slash :: "string list \<Rightarrow> string" where
  "join_slash [] = []"
| "join_slash [s] = s"
| "join_slash (s # t # ss) = s @ CHR ''/'' # join_slash (t # ss)"

text \<open>
  \<open>normalizeString\<close> walks over the segments and keeps the result so far; here the
  result is a stack of segments, the last one on top. Empty segments and \<open>.\<close> are
  dropped; \<open>..\<close> removes the last segment unless there is none or it is \<open>..\<close> itself,
  in which case \<open>..\<close> is kept only if the path may rise above its start.
\<close>

definition normalize_step :: "bool \<Rightarrow> string \<Rightarrow> string list \<Rightarrow> string list" where
  "normalize_step allowAboveRoot seg res =
     (if seg = [] \<or> seg = ''.'' then res
      else if seg = ''..'' then
        (case res of
           [] \<Rightarrow> (if allowAboveRoot then [''..''] else [])
         | t # ts \<Rightarrow>
             (if t = ''..'' then (if allowAboveRoot then ''..'' # res else res) else ts))
      else seg # res)"

definition normalize_segments :: "bool \<Rightarrow> string list \<Rightarrow> string list" where
  "normalize_segments allowAboveRoot segs = rev (fold (normalize_step allowAboveRoot) segs [])"

definition normalizeString :: "string \<Rightarrow> bool \<Rightarrow> string" where
  "normalizeString p allowAboveRoot =
     join_slash (normalize_segments allowAboveRoot (split_slash p))"

definition path_normalize :: "string \<Rightarrow> string" where
  "path_normalize p =
     (if p = [] then ''.''
      else
        let isAbsolute = (hd p = CHR ''/'');
            trailingSeparator = (last p = CHR ''/'');
            q = normalizeString p (\<not> isAbsolute)
        in if q = [] then (if isAbsolute then ''/'' else if trailingSeparator then ''./'' else ''.'')
           else
             let q' = (if trailingSeparator then q @ ''/'' else q)
             in if isAbsolute then CHR ''/'' # q' else q')"

text \<open>\<open>path.join(a, b)\<close>: the non-empty arguments, separated by \<open>/\<close>, then normalised.\<close>

definition path_join :: "string \<Rightarrow> string \<Rightarrow> string" where
  "path_join a b =
     (let joined = (if a = [] then b else if b = [] then a else a @ ''/'' @ b)
      in if joined = [] then ''.'' else path_normalize joined)"

text \<open>
  \<open>path.resolve\<close> prepends its arguments from the right until the path is absolute,
  skipping empty ones, and falls back on the working directory.
\<close>

fun resolve_prepend :: "string list \<Rightarrow> string \<times> bool \<Rightarrow> string \<times> bool" where
  "resolve_prepend [] acc = acc"
| "resolve_prepend (a # as) (resolvedPath, resolvedAbsolute) =
     (if resolvedAbsolute then (resolvedPath, resolvedAbsolute)
      else if a = [] then resolve_prepend as (resolvedPath, resolvedAbsolute)
      else resolve_prepend as (a @ ''/'' @ resolvedPath, hd a = CHR ''/''))"

definition path_resolve :: "string \<Rightarrow> string list \<Rightarrow> string" where
  "path_resolve cwd args =
     (let (resolvedPath, resolvedAbsolute) = resolve_prepend (rev args @ [cwd]) ([], False);
          q = normalizeString resolvedPath (\<not> resolvedAbsolute)
      in if resolvedAbsolute then CHR ''/'' # q
         else if q \<noteq> [] then q else ''.'')"

text \<open>
  \<open>path.relative(from, to)\<close> resolves both paths, drops their longest common prefix of
  whole segments, climbs out of what is left of \<open>from\<close> and descends into what is left
  of \<open>to\<close>.
\<close>

fun drop_common :: "string list \<Rightarrow> string list \<Rightarrow> string list \<times> string list" where
  "drop_common (x # xs) (y # ys) = (if x = y then drop_common xs ys else (x # xs, y # ys))"
| "drop_common xs ys = (xs, ys)"

definition path_segments :: "string \<Rightarrow> string list" where
  "path_segments p = filter (\<lambda>s. s \<noteq> []) (split_slash p)"

definition path_relative :: "string \<Rightarrow> string \<Rightarrow> string \<Rightarrow> string" where
  "path_relative cwd from to =
     (if from = to then []
      else
        let from' = path_resolve cwd [from];
            to' = path_resolve cwd [to]
        in if from' = to' then []
           else
             let (up, down) = drop_common (path_segments from') (path_segments to')
             in join_slash (map (\<lambda>_. ''..'') up @ down))"

subsection \<open>Repeated \<open>path.dirname\<close> comes to an end\<close>

definition dir_measure :: "string \<Rightarrow> nat" where
  "dir_measure d = (if d = ''.'' \<or> d = ''/'' then 0 else Suc (length d))"

lemma dir_measure_le: "dir_measure d \<le> Suc (length d)"
  by (simp add: dir_measure_def)

lemma dirname_scan_bound:
  "dirname_scan p i m = Some e \<Longrightarrow> 0 < e \<and> e \<le> i \<and> (m \<longrightarrow> e < i)"
proof (induction i arbitrary: m)
  case 0
  then show ?case by simp
next
  case (Suc i)
  show ?case
  proof (cases "p ! Suc i = CHR ''/''")
    case True
    show ?thesis
    proof (cases m)
      case True
      with \<open>p ! Suc i = CHR ''/''\<close> Suc.prems have "dirname_scan p i True = Some e" by simp
      from Suc.IH[OF this] show ?thesis by simp
    next
      case False
      with \<open>p ! Suc i = CHR ''/''\<close> Suc.prems show ?thesis by simp
    qed
  next
    case False
    with Suc.prems have "dirname_scan p i False = Some e" by simp
    from Suc.IH[OF this] show ?thesis by simp
  qed
qed

lemma path_dirname_fixed: "d = ''.'' \<or> d = ''/'' \<Longrightarrow> path_dirname d = d"
  by (auto simp: path_dirname_def)

lemma path_dirname_decreases:
  assumes "path_dirname d \<noteq> d"
  shows "dir_measure (path_dirname d) < dir_measure d"
proof -
  from assms path_dirname_fixed have nf: "d \<noteq> ''.''" "d \<noteq> ''/''" by auto
  then have md: "dir_measure d = Suc (length d)" by (simp add: dir_measure_def)
  show ?thesis
  proof (cases "d = []")
    case True
    then show ?thesis by (simp add: path_dirname_def dir_measure_def)
  next
    case False
    show ?thesis
    proof (cases "dirname_scan d (length d - 1) True")
      case None
      with False have "path_dirname d = ''/'' \<or> path_dirname d = ''.''"
        by (simp add: path_dirname_def Let_def)
      then have "dir_measure (path_dirname d) = 0" by (auto simp: dir_measure_def)
      with md show ?thesis by simp
    next
      case (Some e)
      from dirname_scan_bound[OF Some] have e: "0 < e" "e < length d - 1" by simp_all
      from Some False have "path_dirname d = ''//'' \<and> e = 1 \<or> path_dirname d = take e d"
        by (simp add: path_dirname_def Let_def)
      then show ?thesis
      proof
        assume "path_dirname d = ''//'' \<and> e = 1"
        with e md show ?thesis by (simp add: dir_measure_def)
      next
        assume "path_dirname d = take e d"
        moreover have "dir_measure (take e d) \<le> Suc (length (take e d))"
          by (rule dir_measure_le)
        ultimately show ?thesis using e md by simp
      qed
    qed
  qed
qed


section \<open>The file system\<close>

text \<open>
  A file system state maps a path, as the program passes it to \<open>fs\<close>, to the entry that
  \<open>stat\<close> finds there (symbolic links followed). A regular file has its text, or none
  when reading it fails. \<open>StatFails err\<close> is an entry that \<open>existsSync\<close> reports and on
  which the \<open>statSync\<close> that follows throws \<open>err\<close>: the entry is removed, or the access to
  it withdrawn, between the two calls. Apart from that the state does not change
  during a call.
\<close>

datatype error = ENOENT | EACCES | EISDIR | EINVAL

datatype entry = Dir | Reg "string option" | Special | StatFails error

type_synonym filesystem = "string \<Rightarrow> entry option"

definition existsSync :: "filesystem \<Rightarrow> string \<Rightarrow> bool" where
  "existsSync fs p = (fs p \<noteq> None)"

definition statSync :: "filesystem \<Rightarrow> string \<Rightarrow> error + entry" where
  "statSync fs p =
     (case fs p of
        None \<Rightarrow> Inl ENOENT
      | Some (StatFails err) \<Rightarrow> Inl err
      | Some stat \<Rightarrow> Inr stat)"

definition isFile :: "entry \<Rightarrow> bool" where
  "isFile stat = (case stat of Reg _ \<Rightarrow> True | _ \<Rightarrow> False)"

definition isDirectory :: "entry \<Rightarrow> bool" where
  "isDirectory stat = (stat = Dir)"

definition readFileSync :: "filesystem \<Rightarrow> string \<Rightarrow> error + string" where
  "readFileSync fs p =
     (case fs p of
        None \<Rightarrow> Inl ENOENT
      | Some Dir \<Rightarrow> Inl EISDIR
      | Some (Reg None) \<Rightarrow> Inl EACCES
      | Some (Reg (Some content)) \<Rightarrow> Inr content
      | Some Special \<Rightarrow> Inl EINVAL
      | Some (StatFails err) \<Rightarrow> Inl err)"

section \<open>\<open>getRepository\<close>\<close>

text \<open>
  The function of lines 16 to 90. What it writes to the console is left out; the
  warnings it shows to the user and the markers it probes are part of its outcome.
\<close>

datatype elementType = File | Directory

text \<open>
  Lines 36 to 53: the text of the \<open>.git\<close> file, trimmed; the path after \<open>gitdir: \<close>,
  trimmed again, or the whole text; made absolute against the directory of the file.
\<close>

definition gitDirPath_of :: "string \<Rightarrow> string \<Rightarrow> string \<Rightarrow> string" where
  "gitDirPath_of cwd currentGitFile content =
     (let gitFileContent = trim content;
          gitDirPath = (if startsWith gitFileContent ''gitdir: ''
                        then trim (substring gitFileContent 8)
                        else gitFileContent)
      in if \<not> path_isAbsolute gitDirPath
         then path_resolve cwd [path_dirname currentGitFile, gitDirPath]
         else gitDirPath)"

text \<open>
  The body of the \<open>try\<close> block (lines 34 to 65): \<open>Inl\<close> is an exception thrown inside
  it, \<open>Inr (Some repoPath)\<close> the \<open>return\<close> of line 64, \<open>Inr None\<close> falling out of it.
\<close>

definition submoduleGitFile :: "filesystem \<Rightarrow> string \<Rightarrow> string \<Rightarrow> error + string option" where
  "submoduleGitFile fs cwd currentGitFile =
     (case readFileSync fs currentGitFile of
        Inl err \<Rightarrow> Inl err
      | Inr content \<Rightarrow>
          let gitDirPath = gitDirPath_of cwd currentGitFile content in
          if existsSync fs gitDirPath then
            (case statSync fs gitDirPath of
               Inl err \<Rightarrow> Inl err
             | Inr stat \<Rightarrow>
                 if isDirectory stat then Inr (Some (path_dirname gitDirPath)) else Inr None)
          else Inr None)"

text \<open>
  One turn of the loop up to line 75, for the marker \<open>currentGitFile\<close>. The \<open>catch\<close> of
  line 66 turns every exception of the \<open>try\<close> block into falling through; the
  \<open>statSync\<close> of line 30 stands outside the block.
\<close>

definition checkGitEntry :: "filesystem \<Rightarrow> string \<Rightarrow> string \<Rightarrow> error + string option" where
  "checkGitEntry fs cwd currentGitFile =
     (if existsSync fs currentGitFile then
        (case statSync fs currentGitFile of
           Inl err \<Rightarrow> Inl err
         | Inr stat \<Rightarrow>
             if isFile stat then
               (case submoduleGitFile fs cwd currentGitFile of
                  Inl err \<Rightarrow> Inr None
                | Inr found \<Rightarrow> Inr found)
             else if isDirectory stat then Inr (Some (path_dirname currentGitFile))
             else Inr None)
      else Inr None)"

text \<open>
  The loop of lines 26 to 84, from \<open>currentDir\<close>. The first component lists the markers
  probed with \<open>existsSync\<close> (line 29), in order; the second is the value returned from
  inside the loop, \<open>Inr None\<close> when the loop is left without one, or the exception.
\<close>

function walkUp :: "filesystem \<Rightarrow> string \<Rightarrow> string \<Rightarrow> string \<Rightarrow> string list \<times> (error + string option)" where
  "walkUp fs cwd rootPath currentDir =
     (if currentDir = rootPath then ([], Inr None)
      else
        (case checkGitEntry fs cwd (path_join currentDir ''.git'') of
           Inl err \<Rightarrow> ([path_join currentDir ''.git''], Inl err)
         | Inr (Some repoPath) \<Rightarrow> ([path_join currentDir ''.git''], Inr (Some repoPath))
         | Inr None \<Rightarrow>
             if path_dirname currentDir = currentDir then
               ([path_join currentDir ''.git''], Inr None)
             else
               (case walkUp fs cwd rootPath (path_dirname currentDir) of
                  (ps, r) \<Rightarrow> (path_join currentDir ''.git'' # ps, r))))"
  by pat_completeness auto
termination
  by (relation "measure (\<lambda>(fs, cwd, rootPath, currentDir). dir_measure currentDir)")
     (auto simp: path_dirname_decreases)

declare walkUp.simps [simp del]

record repositoryOutcome =
  returned :: "error + string option"
  probed :: "string list"
  warningMessages :: "string list"

definition getRepository :: "filesystem \<Rightarrow> string \<Rightarrow> string \<Rightarrow> elementType \<Rightarrow> repositoryOutcome" where
  "getRepository fs cwd element elementType =
     (let startDir = (if elementType = File then path_dirname element else element);
          rootPath = path_parse_root element
      in case walkUp fs cwd rootPath startDir of
           (ps, r) \<Rightarrow>
             \<lparr> returned = r, probed = ps,
               warningMessages =
                 (if r = Inr None then [''Unable to resolve the repository to open.''] else []) \<rparr>)"

section \<open>\<open>getFileDetails\<close> and \<open>openFile\<close>\<close>

text \<open>
  The second loop (lines 125 to 139 and 208 to 222): the nearest directory above the
  file, the root excluded, whose \<open>.git\<close> is a regular file. The test of line 130 is
  \<open>existsSync && statSync(...).isFile()\<close>, outside any \<open>try\<close>.
\<close>

definition isGitFile :: "filesystem \<Rightarrow> string \<Rightarrow> error + bool" where
  "isGitFile fs currentGitFile =
     (if existsSync fs currentGitFile then
        (case statSync fs currentGitFile of
           Inl err \<Rightarrow> Inl err
         | Inr stat \<Rightarrow> Inr (isFile stat))
      else Inr False)"

function findSubmoduleRoot :: "filesystem \<Rightarrow> string \<Rightarrow> string \<Rightarrow> error + string option" where
  "findSubmoduleRoot fs rootPath currentDir =
     (if currentDir = rootPath then Inr None
      else
        (case isGitFile fs (path_join currentDir ''.git'') of
           Inl err \<Rightarrow> Inl err
         | Inr found \<Rightarrow>
             if found then Inr (Some currentDir)
             else if path_dirname currentDir = currentDir then Inr None
             else findSubmoduleRoot fs rootPath (path_dirname currentDir)))"
  by pat_completeness auto
termination
  by (relation "measure (\<lambda>(fs, rootPath, currentDir). dir_measure currentDir)")
     (auto simp: path_dirname_decreases)

declare findSubmoduleRoot.simps [simp del]

record textEditor =
  document_uri_path :: string
  selection_start_line :: nat
  selection_end_line :: nat

record fileDetails =
  path :: string
  selectionStart :: nat
  selectionEnd :: nat
  repository :: string

text \<open>
  \<open>getFileDetails\<close> (lines 111 to 160). The result is \<open>Inr None\<close> for \<open>undefined\<close>, and
  comes with the warnings shown to the user. An empty string counts as no repository
  and as no submodule root, as JavaScript's truthiness has it.
\<close>

definition getFileDetails :: "filesystem \<Rightarrow> string \<Rightarrow> textEditor \<Rightarrow> (error + fileDetails option) \<times> string list" where
  "getFileDetails fs cwd editor =
     (let out = getRepository fs cwd (document_uri_path editor) File in
      case returned out of
        Inl err \<Rightarrow> (Inl err, warningMessages out)
      | Inr None \<Rightarrow> (Inr None, warningMessages out)
      | Inr (Some repo) \<Rightarrow>
          if repo = [] then (Inr None, warningMessages out)
          else
            let relativePath = replace (document_uri_path editor) (repo @ ''/'') [] in
            (case findSubmoduleRoot fs (path_parse_root (document_uri_path editor))
                    (path_dirname (document_uri_path editor)) of
               Inl err \<Rightarrow> (Inl err, warningMessages out)
             | Inr submoduleRoot \<Rightarrow>
                 if submoduleRoot \<noteq> None \<and> submoduleRoot \<noteq> Some [] then
                   (Inr (Some \<lparr> path = path_relative cwd (the submoduleRoot) (document_uri_path editor),
                                selectionStart = selection_start_line editor + 1,
                                selectionEnd = selection_end_line editor + 1,
                                repository = the submoduleRoot \<rparr>),
                    warningMessages out)
                 else
                   (Inr (Some \<lparr> path = relativePath,
                                selectionStart = selection_start_line editor + 1,
                                selectionEnd = selection_end_line editor + 1,
                                repository = repo \<rparr>),
                    warningMessages out)))"

datatype action = search | blame

definition action_name :: "action \<Rightarrow> string" where
  "action_name a = (case a of search \<Rightarrow> ''search'' | blame \<Rightarrow> ''blame'')"

text \<open>
  What \<open>openSublimeMerge\<close> hands to \<open>child.execFile\<close>: the arguments and the working
  directory. The path of the binary is configuration and stays outside.
\<close>

record launch =
  args :: "string list"
  workingDirectory :: string

text \<open>\<open>openFile\<close> (lines 186 to 244), with the launch it ends in and the warnings shown.\<close>

definition openFile :: "filesystem \<Rightarrow> string \<Rightarrow> string \<Rightarrow> action \<Rightarrow> (error + launch option) \<times> string list" where
  "openFile fs cwd filePath act =
     (if filePath = [] then (Inr None, [''Unable to resolve the file's path.''])
      else
        let out = getRepository fs cwd filePath File in
        case returned out of
          Inl err \<Rightarrow> (Inl err, warningMessages out)
        | Inr None \<Rightarrow> (Inr None, warningMessages out)
        | Inr (Some repo) \<Rightarrow>
            if repo = [] then (Inr None, warningMessages out)
            else
              (case findSubmoduleRoot fs (path_parse_root filePath) (path_dirname filePath) of
                 Inl err \<Rightarrow> (Inl err, warningMessages out)
               | Inr submoduleRoot \<Rightarrow>
                   let overridden = (submoduleRoot \<noteq> None \<and> submoduleRoot \<noteq> Some []);
                       workingDir = (if overridden then the submoduleRoot else repo);
                       relativePath = (if overridden
                                       then path_relative cwd (the submoduleRoot) filePath
                                       else replace filePath (repo @ ''/'') []);
                       searchPattern = (if act = search
                                        then ''file:'' @ [CHR 0x22] @ relativePath @ [CHR 0x22]
                                        else relativePath)
                   in (Inr (Some \<lparr> args = [action_name act, searchPattern],
                                    workingDirectory = workingDir \<rparr>),
                       warningMessages out)))"

section \<open>The vocabulary of the claims\<close>

text \<open>
  The claims speak of a file under a directory. A normalised absolute path is written
  here as the list of its names: \<open>absPath [a, b]\<close> is \<open>/a/b\<close>, and \<open>absPath []\<close> is the
  root \<open>/\<close>. A proper name is not empty, holds no separator and is neither \<open>.\<close> nor
  \<open>..\<close>.
\<close>

definition properName :: "string \<Rightarrow> bool" where
  "properName s = (s \<noteq> [] \<and> CHR ''/'' \<notin> set s \<and> s \<noteq> ''.'' \<and> s \<noteq> ''..'')"

definition absPath :: "string list \<Rightarrow> string" where
  "absPath segs = (if segs = [] then ''/'' else concat (map ((#) CHR ''/'') segs))"

text \<open>
  The redirect target in the words of the specification: the trimmed text, without the
  prefix \<open>gitdir: \<close> if it has it, made absolute against the directory of the
  marker.
\<close>

definition claimed_gitDirPath :: "string \<Rightarrow> string \<Rightarrow> string \<Rightarrow> string" where
  "claimed_gitDirPath cwd markerPath content =
     (let trimmed = trim content;
          target = (if startsWith trimmed ''gitdir: '' then substring trimmed 8 else trimmed)
      in if path_isAbsolute target then target
         else path_resolve cwd [path_dirname markerPath, target])"





section \<open>File systems of the scenarios\<close>

text \<open>A file system with a repository at \<open>/repo\<close> and nothing else.\<close>

definition fs_plain :: filesystem where
  "fs_plain = [''/repo/.git'' \<mapsto> Dir]"

text \<open>A repository whose working tree is the root of the file system.\<close>

definition fs_root_repo :: filesystem where
  "fs_root_repo = [''/.git'' \<mapsto> Dir]"

text \<open>
  The layout that \<open>git submodule\<close> creates, the second scenario of the specification:
  the superproject at \<open>/repo\<close>, the submodule at \<open>/repo/libs/sub\<close> with a \<open>.git\<close> file
  that points into the metadata of the superproject.
\<close>

definition fs_submodule :: filesystem where
  "fs_submodule =
     [''/repo/.git'' \<mapsto> Dir,
      ''/repo/.git/modules/sub'' \<mapsto> Dir,
      ''/repo/libs/sub/.git'' \<mapsto> Reg (Some ''gitdir: ../../.git/modules/sub'')]"


text \<open>A superproject at \<open>/repo\<close> and, below it, a \<open>.git\<close> file that cannot be read.\<close>

definition fs_unreadable :: filesystem where
  "fs_unreadable = [''/repo/.git'' \<mapsto> Dir, ''/repo/sub/.git'' \<mapsto> Reg None]"



text \<open>
  A \<open>.git\<close> file at \<open>/work/sub\<close> that names its metadata directory \<open>/store/sub\<close> by an
  absolute path ending in \<open>/.\<close>; the directory is reached under both spellings.
\<close>

definition fs_dot_target :: filesystem where
  "fs_dot_target =
     [''/work/sub/.git'' \<mapsto> Reg (Some ''gitdir: /store/sub/.''),
      ''/store'' \<mapsto> Dir,
      ''/store/sub'' \<mapsto> Dir,
      ''/store/sub/.'' \<mapsto> Dir]"

text \<open>The same layout with the metadata directory named by a relative path.\<close>

definition fs_dot_target_relative :: filesystem where
  "fs_dot_target_relative =
     [''/work/sub/.git'' \<mapsto> Reg (Some ''gitdir: ../../store/sub/.''),
      ''/store'' \<mapsto> Dir,
      ''/store/sub'' \<mapsto> Dir,
      ''/store/sub/.'' \<mapsto> Dir]"

text \<open>A repository at \<open>/repo\<close> whose \<open>.git\<close> is a file with a valid target.\<close>

definition fs_gitfile :: filesystem where
  "fs_gitfile =
     [''/repo/.git'' \<mapsto> Reg (Some ''gitdir: /store/repo''),
      ''/store/repo'' \<mapsto> Dir]"

text \<open>The marker of \<open>/repo\<close> is removed between \<open>existsSync\<close> and \<open>statSync\<close>.\<close>

definition fs_marker_vanishes :: filesystem where
  "fs_marker_vanishes = [''/repo/.git'' \<mapsto> StatFails ENOENT]"

text \<open>
  A repository at \<open>/repo\<close> and below it a \<open>.git\<close> file whose target is removed between
  \<open>existsSync\<close> and \<open>statSync\<close>.
\<close>

definition fs_target_vanishes :: filesystem where
  "fs_target_vanishes =
     [''/repo/.git'' \<mapsto> Dir,
      ''/repo/sub/.git'' \<mapsto> Reg (Some ''gitdir: /store/sub''),
      ''/store/sub'' \<mapsto> StatFails ENOENT]"

text \<open>
  A repository at \<open>/outer/repo\<close>; the \<open>.git\<close> of the directory above it exists, and its
  \<open>stat\<close> is refused.
\<close>

definition fs_outer_refused :: filesystem where
  "fs_outer_refused = [''/outer/repo/.git'' \<mapsto> Dir, ''/outer/.git'' \<mapsto> StatFails EACCES]"

section \<open>Properties of the string and path functions\<close>

subsection \<open>Trimming\<close>

lemma trimStart_decompose:
  "s = takeWhile isWhiteSpace s @ trimStart s"
  by (simp add: trimStart_def)

lemma trimEnd_decompose:
  "s = trimEnd s @ rev (takeWhile isWhiteSpace (rev s))"
proof -
  have "trimEnd s @ rev (takeWhile isWhiteSpace (rev s)) =
        rev (takeWhile isWhiteSpace (rev s) @ dropWhile isWhiteSpace (rev s))"
    unfolding trimEnd_def by (simp only: rev_append)
  also have "\<dots> = s" by (simp only: takeWhile_dropWhile_id rev_rev_ident)
  finally show ?thesis by simp
qed

lemma trim_decompose:
  "\<exists>a b. s = a @ trim s @ b \<and> (\<forall>c \<in> set (a @ b). isWhiteSpace c)"
proof -
  let ?a = "takeWhile isWhiteSpace s"
  let ?b = "rev (takeWhile isWhiteSpace (rev (trimStart s)))"
  have "s = ?a @ trimStart s" by (rule trimStart_decompose)
  also have "trimStart s = trim s @ ?b" unfolding trim_def by (rule trimEnd_decompose)
  finally have "s = ?a @ trim s @ ?b" .
  moreover have "\<forall>c \<in> set (?a @ ?b). isWhiteSpace c"
    by (auto dest: set_takeWhileD)
  ultimately show ?thesis by blast
qed

lemma trimStart_hd: "trimStart s \<noteq> [] \<Longrightarrow> \<not> isWhiteSpace (hd (trimStart s))"
  unfolding trimStart_def by (rule hd_dropWhile)

lemma trimEnd_last: "trimEnd s \<noteq> [] \<Longrightarrow> \<not> isWhiteSpace (last (trimEnd s))"
proof -
  assume "trimEnd s \<noteq> []"
  then have ne: "dropWhile isWhiteSpace (rev s) \<noteq> []" by (simp add: trimEnd_def)
  then have "\<not> isWhiteSpace (hd (dropWhile isWhiteSpace (rev s)))" by (rule hd_dropWhile)
  with ne show ?thesis by (simp add: trimEnd_def last_rev)
qed

lemma trimEnd_hd: "trimEnd s \<noteq> [] \<Longrightarrow> hd (trimEnd s) = hd s"
  using trimEnd_decompose[of s] by (metis hd_append2)

lemma trim_ends:
  assumes "trim s \<noteq> []"
  shows "\<not> isWhiteSpace (hd (trim s)) \<and> \<not> isWhiteSpace (last (trim s))"
proof -
  from assms have "trimStart s \<noteq> []" by (auto simp: trim_def trimEnd_def)
  then have "\<not> isWhiteSpace (hd (trimStart s))" by (rule trimStart_hd)
  moreover from assms have "hd (trim s) = hd (trimStart s)"
    unfolding trim_def by (rule trimEnd_hd)
  moreover from assms have "\<not> isWhiteSpace (last (trim s))"
    unfolding trim_def by (rule trimEnd_last)
  ultimately show ?thesis by simp
qed

lemma replace_prefix: "replace (pat @ q) pat [] = q"
proof (cases pat)
  case Nil
  then show ?thesis by (cases q) (simp_all add: startsWith_def)
next
  case (Cons c cs)
  have "startsWith (c # cs @ q) (c # cs)" by (simp add: startsWith_def)
  with Cons show ?thesis by simp
qed

subsection \<open>Splitting and joining at separators\<close>

lemma split_slash_nonempty: "split_slash s \<noteq> []"
  by (induction s) (auto split: list.splits)

lemma split_slash_noslash: "CHR ''/'' \<notin> set s \<Longrightarrow> split_slash s = [s]"
  by (induction s) auto

lemma split_slash_sep:
  "CHR ''/'' \<notin> set s \<Longrightarrow> split_slash (s @ CHR ''/'' # r) = s # split_slash r"
proof (induction s)
  case Nil
  show ?case using split_slash_nonempty[of r] by (simp split: list.splits)
next
  case (Cons c s)
  then show ?case by auto
qed

lemma split_slash_segments_noslash: "t \<in> set (split_slash s) \<Longrightarrow> CHR ''/'' \<notin> set t"
proof (induction s arbitrary: t)
  case Nil
  then show ?case by simp
next
  case (Cons c s)
  obtain seg segs where ss: "split_slash s = seg # segs"
    using split_slash_nonempty[of s] by (cases "split_slash s") auto
  have "CHR ''/'' \<notin> set seg" "\<forall>u \<in> set segs. CHR ''/'' \<notin> set u"
    using Cons.IH ss by auto
  with Cons.prems ss show ?case by (auto split: if_splits)
qed

lemma split_slash_concat:
  "CHR ''/'' \<notin> set s \<Longrightarrow> \<forall>t \<in> set segs. CHR ''/'' \<notin> set t \<Longrightarrow>
   split_slash (s @ concat (map ((#) CHR ''/'') segs)) = s # segs"
proof (induction segs arbitrary: s)
  case Nil
  then show ?case by (simp add: split_slash_noslash)
next
  case (Cons a segs)
  have "split_slash (s @ CHR ''/'' # (a @ concat (map ((#) CHR ''/'') segs)))
        = s # split_slash (a @ concat (map ((#) CHR ''/'') segs))"
    using Cons.prems(1) by (rule split_slash_sep)
  also have "split_slash (a @ concat (map ((#) CHR ''/'') segs)) = a # segs"
    using Cons.prems(2) by (intro Cons.IH) auto
  finally show ?case by simp
qed




lemma join_slash_absPath:
  "segs \<noteq> [] \<Longrightarrow> CHR ''/'' # join_slash segs = concat (map ((#) CHR ''/'') segs)"
  by (induction segs rule: join_slash.induct) auto

lemma join_slash_snoc:
  "join_slash (xs @ [s]) = (if xs = [] then s else join_slash xs @ CHR ''/'' # s)"
  by (induction xs rule: join_slash.induct) auto


lemma join_slash_hd: "xs \<noteq> [] \<Longrightarrow> hd xs \<noteq> [] \<Longrightarrow> hd (join_slash xs) = hd (hd xs)"
  by (induction xs rule: join_slash.induct) auto




subsection \<open>Normalisation\<close>

lemma fold_normalize_proper:
  "\<forall>t \<in> set xs. properName t \<Longrightarrow> fold (normalize_step a) xs st = rev xs @ st"
  by (induction xs arbitrary: st) (auto simp: normalize_step_def properName_def)






subsection \<open>\<open>path.dirname\<close>\<close>

lemma dirname_scan_skip:
  "\<forall>j. k < j \<and> j \<le> n \<longrightarrow> p ! j \<noteq> CHR ''/'' \<Longrightarrow> k < n \<Longrightarrow>
   dirname_scan p n m = dirname_scan p k False"
proof (induction n arbitrary: m)
  case 0
  then show ?case by simp
next
  case (Suc n)
  from Suc.prems have ns: "p ! Suc n \<noteq> CHR ''/''" by simp
  show ?case
  proof (cases "k = n")
    case True
    with ns show ?thesis by simp
  next
    case False
    with Suc.prems have "k < n" by simp
    moreover from Suc.prems have "\<forall>j. k < j \<and> j \<le> n \<longrightarrow> p ! j \<noteq> CHR ''/''" by simp
    ultimately have "dirname_scan p n False = dirname_scan p k False" by (rule Suc.IH[rotated])
    with ns show ?thesis by simp
  qed
qed

lemma path_dirname_append:
  assumes s: "s \<noteq> []" "CHR ''/'' \<notin> set s"
  shows "path_dirname (x @ CHR ''/'' # s) =
           (if x = [] then ''/'' else if hd x = CHR ''/'' \<and> length x = 1 then ''//'' else x)"
proof -
  let ?p = "x @ CHR ''/'' # s"
  have len: "length ?p - 1 = length x + length s" by simp
  have tail: "\<forall>j. length x < j \<and> j \<le> length x + length s \<longrightarrow> ?p ! j \<noteq> CHR ''/''"
  proof (intro allI impI)
    fix j assume j: "length x < j \<and> j \<le> length x + length s"
    then have "?p ! j = s ! (j - length x - 1)" by (auto simp: nth_append nth_Cons')
    moreover from j s have "s ! (j - length x - 1) \<in> set s" by (intro nth_mem) auto
    ultimately show "?p ! j \<noteq> CHR ''/''" using s by auto
  qed
  from s have "length x < length x + length s" by simp
  from dirname_scan_skip[OF tail this]
  have scan: "dirname_scan ?p (length ?p - 1) True = dirname_scan ?p (length x) False"
    by (simp only: len)
  show ?thesis
  proof (cases x)
    case Nil
    with scan show ?thesis by (simp add: path_dirname_def)
  next
    case (Cons c cs)
    have "?p ! length x = CHR ''/''" by (simp add: nth_append)
    with Cons have "dirname_scan ?p (length x) False = Some (length x)" by simp
    with scan have "dirname_scan ?p (length ?p - 1) True = Some (length x)" by simp
    then show ?thesis using Cons by (simp add: path_dirname_def)
  qed
qed

lemma path_isAbsolute_dirname: "path_isAbsolute (path_dirname d) = path_isAbsolute d"
proof (cases "d = []")
  case True
  then show ?thesis by (simp add: path_dirname_def path_isAbsolute_def)
next
  case False
  show ?thesis
  proof (cases "dirname_scan d (length d - 1) True")
    case None
    with False show ?thesis by (simp add: path_dirname_def path_isAbsolute_def)
  next
    case (Some e)
    from dirname_scan_bound[OF Some] have "0 < e" by simp
    with Some False show ?thesis
      by (auto simp: path_dirname_def path_isAbsolute_def)
  qed
qed

lemma path_parse_root_dirname: "path_parse_root (path_dirname d) = path_parse_root d"
  by (simp add: path_parse_root_def path_isAbsolute_dirname)

subsection \<open>Normalised absolute paths\<close>

lemma absPath_snoc:
  "absPath (segs @ [s]) = (if segs = [] then [] else absPath segs) @ CHR ''/'' # s"
  by (simp add: absPath_def)

lemma absPath_hd: "hd (absPath segs) = CHR ''/''"
  by (cases segs) (simp_all add: absPath_def)

lemma absPath_nonempty: "absPath segs \<noteq> []"
  by (cases segs) (simp_all add: absPath_def)

lemma absPath_length: "\<forall>t \<in> set segs. t \<noteq> [] \<Longrightarrow> segs \<noteq> [] \<Longrightarrow> 2 \<le> length (absPath segs)"
  by (cases segs) (auto simp: absPath_def Suc_le_eq)

lemma absPath_root_iff: "\<forall>t \<in> set segs. t \<noteq> [] \<Longrightarrow> absPath segs = ''/'' \<longleftrightarrow> segs = []"
  using absPath_length[of segs] by (auto simp: absPath_def)

lemma length_absPath_snoc:
  "length (absPath (segs @ [s])) = (if segs = [] then 0 else length (absPath segs)) + Suc (length s)"
  by (simp add: absPath_snoc)

lemma absPath_snoc_neq:
  assumes "\<forall>t \<in> set segs. t \<noteq> []" "s \<noteq> []"
  shows "absPath (segs @ [s]) \<noteq> absPath segs"
proof (cases "segs = []")
  case True
  with assms(2) show ?thesis by (simp add: absPath_def)
next
  case False
  have "length (absPath (segs @ [s])) \<noteq> length (absPath segs)"
    using False by (simp add: length_absPath_snoc)
  then show ?thesis by metis
qed

lemma absPath_snoc_not_root:
  assumes "\<forall>t \<in> set segs. t \<noteq> []" "s \<noteq> []"
  shows "absPath (segs @ [s]) \<noteq> ''/''"
  using absPath_root_iff[of "segs @ [s]"] assms by auto

lemma properName_git: "properName ''.git''"
  by (simp add: properName_def)

lemma path_dirname_absPath:
  assumes "\<forall>t \<in> set segs. t \<noteq> []" "s \<noteq> []" "CHR ''/'' \<notin> set s"
  shows "path_dirname (absPath (segs @ [s])) = absPath segs"
proof (cases "segs = []")
  case True
  have "path_dirname ([] @ CHR ''/'' # s) = ''/''"
    using assms(2,3) by (subst path_dirname_append) simp_all
  with True show ?thesis by (simp add: absPath_def)
next
  case False
  with assms(1) have "2 \<le> length (absPath segs)" by (simp add: absPath_length)
  with False assms show ?thesis
    by (simp add: absPath_snoc path_dirname_append absPath_nonempty)
qed

lemma path_parse_root_absPath: "path_parse_root (absPath segs) = ''/''"
  by (simp add: path_parse_root_def path_isAbsolute_def absPath_hd absPath_nonempty)

lemma path_join_absPath:
  assumes "\<forall>t \<in> set segs. properName t" "properName s"
  shows "path_join (absPath segs) s = absPath (segs @ [s])"
proof -
  have sn: "s \<noteq> []" "CHR ''/'' \<notin> set s" using assms(2) by (auto simp: properName_def)
  let ?j = "absPath segs @ CHR ''/'' # s"
  have j: "path_join (absPath segs) s = path_normalize ?j"
    using sn by (simp add: path_join_def absPath_nonempty)
  have hd: "hd ?j = CHR ''/''" by (simp add: absPath_nonempty absPath_hd)
  have "last s \<in> set s" using sn by simp
  then have "last s \<noteq> CHR ''/''" using sn by metis
  then have last: "last ?j \<noteq> CHR ''/''" using sn by simp
  have split: "split_slash ?j = [] # (if segs = [] then [[]] else segs) @ [s]"
  proof (cases "segs = []")
    case True
    have "split_slash ([] @ concat (map ((#) CHR ''/'') [[], s])) = [] # [[], s]"
      using sn by (intro split_slash_concat) auto
    with True show ?thesis by (simp add: absPath_def)
  next
    case False
    have "split_slash ([] @ concat (map ((#) CHR ''/'') (segs @ [s]))) = [] # (segs @ [s])"
      using sn assms(1) by (intro split_slash_concat) (auto simp: properName_def)
    with False show ?thesis by (simp add: absPath_def)
  qed
  have "normalize_segments False (split_slash ?j) = segs @ [s]"
  proof -
    have "fold (normalize_step False) (split_slash ?j) [] = fold (normalize_step False) (segs @ [s]) []"
      by (simp add: split normalize_step_def)
    also have "\<dots> = rev (segs @ [s]) @ []"
      using assms by (intro fold_normalize_proper) auto
    finally show ?thesis by (simp add: normalize_segments_def)
  qed
  then have ns: "normalizeString ?j False = join_slash (segs @ [s])"
    by (simp add: normalizeString_def)
  have ne: "join_slash (segs @ [s]) \<noteq> []"
    using sn by (simp add: join_slash_snoc)
  have "path_normalize ?j = CHR ''/'' # join_slash (segs @ [s])"
    using hd last ns ne by (simp add: path_normalize_def Let_def)
  also have "\<dots> = absPath (segs @ [s])"
    using join_slash_absPath[of "segs @ [s]"] by (simp add: absPath_def)
  finally show ?thesis using j by simp
qed

lemma absPath_take_git_not_root_marker:
  assumes "\<forall>t \<in> set segs. properName t" "0 < k" "k \<le> length segs"
  shows "absPath (take k segs @ [''.git'']) \<noteq> ''/.git''"
proof -
  from assms have tk: "take k segs \<noteq> []" by auto
  have "\<forall>t \<in> set (take k segs). t \<noteq> []"
    using assms(1) by (auto simp: properName_def dest: in_set_takeD)
  with tk have "2 \<le> length (absPath (take k segs))" by (intro absPath_length) auto
  with tk have "length (absPath (take k segs @ [''.git''])) \<noteq> length ''/.git''"
    by (simp add: length_absPath_snoc absPath_nonempty)
  then show ?thesis by metis
qed

subsection \<open>\<open>path.resolve\<close>, \<open>path.join\<close> and \<open>path.relative\<close>\<close>





lemma drop_common_subset: "set (snd (drop_common xs ys)) \<subseteq> set ys"
  by (induction xs ys rule: drop_common.induct) auto

lemma path_segments_names: "t \<in> set (path_segments p) \<Longrightarrow> t \<noteq> [] \<and> CHR ''/'' \<notin> set t"
  by (auto simp: path_segments_def dest: split_slash_segments_noslash)








lemma path_relative_not_absolute: "\<not> path_isAbsolute (path_relative cwd from to)"
proof -
  let ?a = "path_segments (path_resolve cwd [from])"
  let ?b = "path_segments (path_resolve cwd [to])"
  obtain up down where ud: "drop_common ?a ?b = (up, down)" by (cases "drop_common ?a ?b")
  let ?L = "map (\<lambda>_. ''..'') up @ down"
  have down: "\<forall>t \<in> set down. t \<noteq> [] \<and> CHR ''/'' \<notin> set t"
    using drop_common_subset[of ?a ?b] ud path_segments_names by fastforce
  have "\<not> path_isAbsolute (join_slash ?L)"
  proof (cases "?L = []")
    case True
    then show ?thesis by (simp add: path_isAbsolute_def)
  next
    case False
    have hdL: "hd ?L \<noteq> [] \<and> hd (hd ?L) \<noteq> CHR ''/''"
    proof (cases up)
      case Nil
      with False have "down \<noteq> []" by simp
      then have "hd down \<in> set down" by simp
      with down have "hd down \<noteq> []" "CHR ''/'' \<notin> set (hd down)" by auto
      then have "hd (hd down) \<noteq> CHR ''/''" by (metis hd_in_set)
      with Nil \<open>hd down \<noteq> []\<close> show ?thesis by simp
    next
      case (Cons u us)
      then show ?thesis by simp
    qed
    with False have "hd (join_slash ?L) = hd (hd ?L)" by (intro join_slash_hd) auto
    with hdL show ?thesis by (simp add: path_isAbsolute_def)
  qed
  with ud show ?thesis
    by (simp add: path_relative_def Let_def path_isAbsolute_def)
qed


section \<open>Properties of the upward walk\<close>

lemma walkUp_root: "walkUp fs cwd rootPath rootPath = ([], Inr None)"
  by (subst walkUp.simps) simp

lemma walkUp_found:
  "currentDir \<noteq> rootPath \<Longrightarrow>
   checkGitEntry fs cwd (path_join currentDir ''.git'') = Inr (Some repoPath) \<Longrightarrow>
   walkUp fs cwd rootPath currentDir = ([path_join currentDir ''.git''], Inr (Some repoPath))"
  by (subst walkUp.simps) simp

lemma walkUp_thrown:
  "currentDir \<noteq> rootPath \<Longrightarrow>
   checkGitEntry fs cwd (path_join currentDir ''.git'') = Inl err \<Longrightarrow>
   walkUp fs cwd rootPath currentDir = ([path_join currentDir ''.git''], Inl err)"
  by (subst walkUp.simps) simp

lemma walkUp_last:
  "currentDir \<noteq> rootPath \<Longrightarrow>
   checkGitEntry fs cwd (path_join currentDir ''.git'') = Inr None \<Longrightarrow>
   path_dirname currentDir = currentDir \<Longrightarrow>
   walkUp fs cwd rootPath currentDir = ([path_join currentDir ''.git''], Inr None)"
  by (subst walkUp.simps) simp

lemma walkUp_next:
  "currentDir \<noteq> rootPath \<Longrightarrow>
   checkGitEntry fs cwd (path_join currentDir ''.git'') = Inr None \<Longrightarrow>
   path_dirname currentDir \<noteq> currentDir \<Longrightarrow>
   walkUp fs cwd rootPath currentDir =
     (path_join currentDir ''.git'' # fst (walkUp fs cwd rootPath (path_dirname currentDir)),
      snd (walkUp fs cwd rootPath (path_dirname currentDir)))"
  by (subst walkUp.simps) (simp split: prod.splits)

text \<open>What one turn of the loop makes of each kind of marker.\<close>

lemma checkGitEntry_absent: "fs g = None \<Longrightarrow> checkGitEntry fs cwd g = Inr None"
  by (simp add: checkGitEntry_def existsSync_def)

lemma checkGitEntry_dir: "fs g = Some Dir \<Longrightarrow> checkGitEntry fs cwd g = Inr (Some (path_dirname g))"
  by (simp add: checkGitEntry_def existsSync_def statSync_def isFile_def isDirectory_def)

lemma checkGitEntry_special: "fs g = Some Special \<Longrightarrow> checkGitEntry fs cwd g = Inr None"
  by (simp add: checkGitEntry_def existsSync_def statSync_def isFile_def isDirectory_def)

lemma checkGitEntry_unreadable: "fs g = Some (Reg None) \<Longrightarrow> checkGitEntry fs cwd g = Inr None"
  by (simp add: checkGitEntry_def existsSync_def statSync_def isFile_def submoduleGitFile_def
        readFileSync_def)

lemma checkGitEntry_stat_fails: "fs g = Some (StatFails err) \<Longrightarrow> checkGitEntry fs cwd g = Inl err"
  by (simp add: checkGitEntry_def existsSync_def statSync_def)

lemma submoduleGitFile_read:
  assumes "fs g = Some (Reg (Some content))"
  shows "submoduleGitFile fs cwd g =
           (case fs (gitDirPath_of cwd g content) of
              None \<Rightarrow> Inr None
            | Some Dir \<Rightarrow> Inr (Some (path_dirname (gitDirPath_of cwd g content)))
            | Some (StatFails err) \<Rightarrow> Inl err
            | Some _ \<Rightarrow> Inr None)"
proof (cases "fs (gitDirPath_of cwd g content)")
  case None
  with assms show ?thesis
    by (simp add: submoduleGitFile_def readFileSync_def existsSync_def Let_def)
next
  case (Some stat)
  with assms show ?thesis
    by (cases stat)
       (simp_all add: submoduleGitFile_def readFileSync_def existsSync_def statSync_def
          isDirectory_def Let_def)
qed

lemma checkGitEntry_redirect:
  assumes "fs g = Some (Reg (Some content))"
  shows "checkGitEntry fs cwd g =
           (if fs (gitDirPath_of cwd g content) = Some Dir
            then Inr (Some (path_dirname (gitDirPath_of cwd g content))) else Inr None)"
proof -
  note sub = submoduleGitFile_read[of fs g content cwd, OF assms]
  show ?thesis
  proof (cases "fs (gitDirPath_of cwd g content)")
    case None
    with assms sub show ?thesis
      by (simp add: checkGitEntry_def existsSync_def statSync_def isFile_def)
  next
    case (Some stat)
    with assms sub show ?thesis
      by (cases stat) (simp_all add: checkGitEntry_def existsSync_def statSync_def isFile_def)
  qed
qed

lemma checkGitEntry_thrown:
  "checkGitEntry fs cwd g = Inl err \<longleftrightarrow> fs g = Some (StatFails err)"
proof (cases "fs g")
  case None
  then show ?thesis by (simp add: checkGitEntry_absent)
next
  case (Some stat)
  show ?thesis
  proof (cases stat)
    case Dir
    with Some show ?thesis by (simp add: checkGitEntry_dir)
  next
    case (Reg body)
    show ?thesis
    proof (cases body)
      case None
      with Some Reg show ?thesis by (simp add: checkGitEntry_unreadable)
    next
      case (Some content)
      with \<open>fs g = Some stat\<close> Reg show ?thesis by (simp add: checkGitEntry_redirect)
    qed
  next
    case Special
    with Some show ?thesis by (simp add: checkGitEntry_special)
  next
    case (StatFails e)
    with Some show ?thesis by (simp add: checkGitEntry_stat_fails)
  qed
qed





lemma returned_getRepository:
  "returned (getRepository fs cwd element elementType) =
     snd (walkUp fs cwd (path_parse_root element)
            (if elementType = File then path_dirname element else element))"
  by (simp add: getRepository_def Let_def split: prod.splits)

lemma probed_getRepository:
  "probed (getRepository fs cwd element elementType) =
     fst (walkUp fs cwd (path_parse_root element)
            (if elementType = File then path_dirname element else element))"
  by (simp add: getRepository_def Let_def split: prod.splits)

lemma warningMessages_getRepository:
  "warningMessages (getRepository fs cwd element elementType) =
     (if returned (getRepository fs cwd element elementType) = Inr None
      then [''Unable to resolve the repository to open.''] else [])"
  by (simp add: getRepository_def Let_def split: prod.splits)


text \<open>The loop makes at most as many turns as the measure of its start allows.\<close>

lemma walkUp_probes_bound:
  "length (fst (walkUp fs cwd rootPath currentDir)) \<le> Suc (dir_measure currentDir)"
proof (induction fs cwd rootPath currentDir rule: walkUp.induct)
  case (1 fs cwd rootPath currentDir)
  show ?case
  proof (cases "currentDir = rootPath")
    case True
    then show ?thesis by (simp add: walkUp_root)
  next
    case False
    show ?thesis
    proof (cases "checkGitEntry fs cwd (path_join currentDir ''.git'')")
      case (Inl e)
      with False show ?thesis by (simp add: walkUp_thrown)
    next
      case (Inr found)
      show ?thesis
      proof (cases found)
        case (Some repoPath)
        with False Inr show ?thesis by (simp add: walkUp_found)
      next
        case None
        show ?thesis
        proof (cases "path_dirname currentDir = currentDir")
          case True
          with False Inr None show ?thesis by (simp add: walkUp_last)
        next
          case np: False
          from np have "dir_measure (path_dirname currentDir) < dir_measure currentDir"
            by (rule path_dirname_decreases)
          with "1.IH"[OF False Inr None np] False Inr None np show ?thesis
            by (simp add: walkUp_next)
        qed
      qed
    qed
  qed
qed

text \<open>The markers probed on the way up from a normalised absolute path.\<close>

lemma probed_absPath:
  assumes "\<forall>t \<in> set segs. properName t"
  shows "set (fst (walkUp fs cwd ''/'' (absPath segs)))
           \<subseteq> (\<lambda>k. absPath (take k segs @ [''.git''])) ` {k. 0 < k \<and> k \<le> length segs}"
  using assms
proof (induction segs rule: rev_induct)
  case Nil
  then show ?case by (simp add: absPath_def walkUp_root)
next
  case (snoc x xs)
  let ?d = "absPath (xs @ [x])"
  let ?I = "\<lambda>ys. (\<lambda>k. absPath (take k ys @ [''.git''])) ` {k. 0 < k \<and> k \<le> length ys}"
  from snoc.prems have px: "properName x" and pxs: "\<forall>t \<in> set xs. properName t" by auto
  then have ne: "\<forall>t \<in> set xs. t \<noteq> []" "x \<noteq> []" "CHR ''/'' \<notin> set x"
    by (auto simp: properName_def)
  have nr: "?d \<noteq> ''/''" using ne by (intro absPath_snoc_not_root) auto
  have g: "path_join ?d ''.git'' = absPath ((xs @ [x]) @ [''.git''])"
    using snoc.prems properName_git by (intro path_join_absPath) auto
  have gin: "path_join ?d ''.git'' \<in> ?I (xs @ [x])"
    unfolding g by (rule image_eqI[where x = "length (xs @ [x])"]) simp_all
  have dn: "path_dirname ?d = absPath xs" using ne by (intro path_dirname_absPath) auto
  have sub: "?I xs \<subseteq> ?I (xs @ [x])"
  proof
    fix y assume "y \<in> ?I xs"
    then obtain k where k: "0 < k" "k \<le> length xs" "y = absPath (take k xs @ [''.git''])" by auto
    then have "y = absPath (take k (xs @ [x]) @ [''.git''])" by simp
    with k show "y \<in> ?I (xs @ [x])" by (intro image_eqI[where x = k]) auto
  qed
  show ?case
  proof (cases "checkGitEntry fs cwd (path_join ?d ''.git'')")
    case (Inl e)
    with nr gin show ?thesis by (simp add: walkUp_thrown)
  next
    case (Inr found)
    show ?thesis
    proof (cases found)
      case (Some repoPath)
      with Inr nr gin show ?thesis by (simp add: walkUp_found)
    next
      case None
      have "path_dirname ?d \<noteq> ?d" unfolding dn using absPath_snoc_neq[OF ne(1,2)] by metis
      with None Inr nr have "fst (walkUp fs cwd ''/'' ?d) =
          path_join ?d ''.git'' # fst (walkUp fs cwd ''/'' (absPath xs))"
        by (simp add: walkUp_next dn)
      with gin snoc.IH[OF pxs] sub show ?thesis by auto
    qed
  qed
qed

lemma root_marker_not_probed:
  assumes "\<forall>t \<in> set segs. properName t"
  shows "''/.git'' \<notin> set (fst (walkUp fs cwd ''/'' (absPath segs)))"
proof
  assume "''/.git'' \<in> set (fst (walkUp fs cwd ''/'' (absPath segs)))"
  with probed_absPath[OF assms, of fs cwd]
  obtain k where "0 < k" "k \<le> length segs" "''/.git'' = absPath (take k segs @ [''.git''])"
    by auto
  with absPath_take_git_not_root_marker[OF assms] show False by metis
qed




section \<open>Properties of the second loop\<close>









section \<open>The claims\<close>

subsection \<open>C1: a file in a submodule\<close>

text \<open>
  C1. For a file of the submodule, \<open>getRepository\<close> returns the parent of the redirect
  target, \<open>/repo/.git/modules\<close>: neither the submodule's working tree \<open>/repo/libs/sub\<close>
  nor the superproject \<open>/repo\<close>. The second loop of \<open>getFileDetails\<close> does report the
  working tree of the submodule for the same file.
\<close>

theorem submodule_root_is_redirect_parent:
  "returned (getRepository fs_submodule ''/'' ''/repo/libs/sub/x.ts'' File) =
     Inr (Some ''/repo/.git/modules'') \<and>
   fst (getFileDetails fs_submodule ''/''
     \<lparr> document_uri_path = ''/repo/libs/sub/x.ts'', selection_start_line = 0,
       selection_end_line = 0 \<rparr>) =
     Inr (Some \<lparr> path = ''x.ts'', selectionStart = 1, selectionEnd = 1,
                  repository = ''/repo/libs/sub'' \<rparr>)"
  by code_simp

subsection \<open>C2: a file in an ordinary repository\<close>

text \<open>
  C2, as stated, for every directory \<open>d\<close> with a \<open>.git\<close> directory and no closer marker.
  With the repository at the root \<open>/\<close> and a file directly in it, nothing is returned.
\<close>

theorem ordinary_repository_counterexample:
  "fs_root_repo (path_join ''/'' ''.git'') = Some Dir \<and>
   returned (getRepository fs_root_repo ''/'' ''/a.ts'' File) = Inr None"
  by code_simp

text \<open>
  C2, amended: let \<open>d\<close> be a directory other than the root whose \<open>.git\<close> is a
  directory, and \<open>p\<close> a file under \<open>d\<close> such that no directory from the one containing
  \<open>p\<close> up to, but excluding, \<open>d\<close> has a \<open>.git\<close> entry. Then \<open>getRepository\<close> returns \<open>d\<close>
  for \<open>p\<close>. In general a marker that is a directory resolves to its parent.
\<close>

theorem ordinary_repository:
  assumes "\<forall>t \<in> set (ds @ qs @ [f]). properName t"
    and "ds \<noteq> []"
    and "fs (absPath (ds @ [''.git''])) = Some Dir"
    and "\<forall>k. 0 < k \<and> k \<le> length qs \<longrightarrow> fs (absPath (ds @ take k qs @ [''.git''])) = None"
  shows "returned (getRepository fs cwd (absPath (ds @ qs @ [f])) File) = Inr (Some (absPath ds)) \<and>
         (fs g = Some Dir \<longrightarrow> checkGitEntry fs cwd g = Inr (Some (path_dirname g)))"
proof -
  have dir: "checkGitEntry fs cwd g = Inr (Some (path_dirname g))" if "fs g = Some Dir" for g
    using that by (simp add: checkGitEntry_def existsSync_def statSync_def isFile_def isDirectory_def)
  from assms(1) have pds: "\<forall>t \<in> set ds. properName t" by auto
  have walk: "snd (walkUp fs cwd ''/'' (absPath (ds @ qs))) = Inr (Some (absPath ds))"
    using assms(1,4)
  proof (induction qs rule: rev_induct)
    case Nil
    have nr: "absPath ds \<noteq> ''/''"
      using assms(2) pds absPath_root_iff[of ds] by (auto simp: properName_def)
    have g: "path_join (absPath ds) ''.git'' = absPath (ds @ [''.git''])"
      using pds properName_git by (intro path_join_absPath) auto
    have "path_dirname (absPath (ds @ [''.git''])) = absPath ds"
      using pds by (intro path_dirname_absPath) (auto simp: properName_def)
    with dir[OF assms(3)] g nr show ?case by (simp add: walkUp_found)
  next
    case (snoc q qs)
    let ?d = "absPath ((ds @ qs) @ [q])"
    from snoc.prems(1) have pq: "properName q" and pdq: "\<forall>t \<in> set (ds @ qs). properName t"
      by auto
    then have ne: "\<forall>t \<in> set (ds @ qs). t \<noteq> []" "q \<noteq> []" "CHR ''/'' \<notin> set q"
      by (auto simp: properName_def)
    have nr: "?d \<noteq> ''/''" using ne by (intro absPath_snoc_not_root) auto
    have g: "path_join ?d ''.git'' = absPath (((ds @ qs) @ [q]) @ [''.git''])"
      using pdq pq properName_git by (intro path_join_absPath) auto
    from snoc.prems(2) have "fs (absPath (ds @ take (length (qs @ [q])) (qs @ [q]) @ [''.git''])) = None"
      by (intro snoc.prems(2)[rule_format]) simp
    then have "fs (path_join ?d ''.git'') = None" using g by simp
    then have none: "checkGitEntry fs cwd (path_join ?d ''.git'') = Inr None"
      by (simp add: checkGitEntry_def existsSync_def)
    have dn: "path_dirname ?d = absPath (ds @ qs)" using ne by (intro path_dirname_absPath) auto
    have np: "path_dirname ?d \<noteq> ?d" unfolding dn using absPath_snoc_neq[OF ne(1,2)] by metis
    have "\<forall>k. 0 < k \<and> k \<le> length qs \<longrightarrow> fs (absPath (ds @ take k qs @ [''.git''])) = None"
    proof (intro allI impI)
      fix k assume k: "0 < k \<and> k \<le> length qs"
      then have "fs (absPath (ds @ take k (qs @ [q]) @ [''.git''])) = None"
        by (intro snoc.prems(2)[rule_format]) simp
      with k show "fs (absPath (ds @ take k qs @ [''.git''])) = None" by simp
    qed
    moreover from snoc.prems(1) have "\<forall>t \<in> set (ds @ qs @ [f]). properName t" by auto
    ultimately have "snd (walkUp fs cwd ''/'' (absPath (ds @ qs))) = Inr (Some (absPath ds))"
      by (intro snoc.IH)
    with nr none np dn show ?case by (simp add: walkUp_next)
  qed
  have "path_dirname (absPath ((ds @ qs) @ [f])) = absPath (ds @ qs)"
    using assms(1) by (intro path_dirname_absPath) (auto simp: properName_def)
  with walk have "returned (getRepository fs cwd (absPath (ds @ qs @ [f])) File) =
      Inr (Some (absPath ds))"
    by (simp add: returned_getRepository path_parse_root_absPath)
  with dir show ?thesis by blast
qed

theorem ordinary_repository_witness:
  "returned (getRepository fs_plain ''/'' (absPath ([''repo''] @ [''src'', ''ui''] @ [''a.ts''])) File) =
     Inr (Some (absPath [''repo''])) \<and>
   absPath ([''repo''] @ [''src'', ''ui''] @ [''a.ts'']) = ''/repo/src/ui/a.ts'' \<and>
   absPath [''repo''] = ''/repo'' \<and>
   checkGitEntry fs_plain ''/'' ''/repo/.git'' = Inr (Some ''/repo'')"
proof -
  have h1: "\<forall>t \<in> set ([''repo''] @ [''src'', ''ui''] @ [''a.ts'']). properName t"
    by (simp add: properName_def)
  have h2: "[''repo''] \<noteq> []" by simp
  have h3: "fs_plain (absPath ([''repo''] @ [''.git''])) = Some Dir" by code_simp
  have h4: "\<forall>k. 0 < k \<and> k \<le> length [''src'', ''ui''] \<longrightarrow>
              fs_plain (absPath ([''repo''] @ take k [''src'', ''ui''] @ [''.git''])) = None"
  proof (intro allI impI)
    fix k :: nat assume "0 < k \<and> k \<le> length [''src'', ''ui'']"
    then have "k = 1 \<or> k = 2" by auto
    moreover have "fs_plain (absPath ([''repo''] @ take 1 [''src'', ''ui''] @ [''.git''])) = None"
      by code_simp
    moreover have "fs_plain (absPath ([''repo''] @ take 2 [''src'', ''ui''] @ [''.git''])) = None"
      by code_simp
    ultimately show "fs_plain (absPath ([''repo''] @ take k [''src'', ''ui''] @ [''.git''])) = None"
      by blast
  qed
  have e1: "absPath ([''repo''] @ [''src'', ''ui''] @ [''a.ts'']) = ''/repo/src/ui/a.ts''"
    by code_simp
  have e2: "absPath [''repo''] = ''/repo''" by code_simp
  have m: "fs_plain ''/repo/.git'' = Some Dir" by code_simp
  have dm: "path_dirname ''/repo/.git'' = ''/repo''" by code_simp
  from ordinary_repository[OF h1 h2 h3 h4, of "''/''" "''/repo/.git''"] e1 e2 m dm
  show ?thesis by simp
qed

subsection \<open>C3: a redirect that leads nowhere\<close>




subsection \<open>C4: starting at the root\<close>

text \<open>
  C4, as stated: a walk that starts at the root probes the root for a marker exactly
  once. With a repository at the root and the walk started there, no marker is probed
  at all, so \<open>/.git\<close> is not probed once.
\<close>

theorem root_probed_once_counterexample:
  "probed (getRepository fs_root_repo ''/'' ''/'' Directory) = [] \<and>
   count_list (probed (getRepository fs_root_repo ''/'' ''/'' Directory))
     (path_join ''/'' ''.git'') \<noteq> 1 \<and>
   returned (getRepository fs_root_repo ''/'' ''/'' Directory) = Inr None"
  by code_simp

text \<open>
  C4, amended: a walk whose starting directory is the root of the path ends at once:
  it probes nothing, returns nothing and shows the warning, whether or not the root
  holds a marker. Every walk ends: it probes at most two markers more than its starting
  directory has characters. In the walk from a normalised absolute path, or from a file
  given by one, the marker \<open>/.git\<close> of the root is never probed.
\<close>

theorem root_never_probed:
  "((if elementType = File then path_dirname element else element) = path_parse_root element \<longrightarrow>
    getRepository fs cwd element elementType =
      \<lparr> returned = Inr None, probed = [],
        warningMessages = [''Unable to resolve the repository to open.''] \<rparr>) \<and>
   length (probed (getRepository fs cwd element elementType)) \<le>
     length (if elementType = File then path_dirname element else element) + 2 \<and>
   ((\<forall>t \<in> set segs. properName t) \<longrightarrow>
    ''/.git'' \<notin> set (probed (getRepository fs cwd (absPath segs) elementType)))"
proof (intro conjI impI)
  assume "(if elementType = File then path_dirname element else element) = path_parse_root element"
  then show "getRepository fs cwd element elementType =
      \<lparr> returned = Inr None, probed = [],
        warningMessages = [''Unable to resolve the repository to open.''] \<rparr>"
    by (simp add: getRepository_def Let_def walkUp_root)
next
  let ?start = "if elementType = File then path_dirname element else element"
  have "length (fst (walkUp fs cwd (path_parse_root element) ?start)) \<le> Suc (dir_measure ?start)"
    by (rule walkUp_probes_bound)
  also have "\<dots> \<le> length ?start + 2" using dir_measure_le[of ?start] by simp
  finally show "length (probed (getRepository fs cwd element elementType)) \<le> length ?start + 2"
    by (simp only: probed_getRepository)
next
  assume proper: "\<forall>t \<in> set segs. properName t"
  show "''/.git'' \<notin> set (probed (getRepository fs cwd (absPath segs) elementType))"
  proof (cases "elementType = File")
    case False
    with root_marker_not_probed[OF proper] show ?thesis
      by (simp add: probed_getRepository path_parse_root_absPath)
  next
    case True
    have "\<exists>xs. (\<forall>t \<in> set xs. properName t) \<and> path_dirname (absPath segs) = absPath xs"
    proof (cases segs rule: rev_cases)
      case Nil
      have "path_dirname ''/'' = ''/''" by (simp add: path_dirname_fixed)
      with Nil show ?thesis by (intro exI[of _ "[]"]) (simp add: absPath_def)
    next
      case (snoc xs x)
      with proper have "path_dirname (absPath segs) = absPath xs"
        by (auto simp: properName_def intro!: path_dirname_absPath)
      with snoc proper show ?thesis by (intro exI[of _ xs]) auto
    qed
    then obtain xs where "\<forall>t \<in> set xs. properName t" "path_dirname (absPath segs) = absPath xs"
      by blast
    with root_marker_not_probed[of xs fs cwd] True show ?thesis
      by (simp add: probed_getRepository path_parse_root_absPath)
  qed
qed

theorem root_never_probed_witness:
  "getRepository fs_root_repo ''/'' ''/'' Directory =
      \<lparr> returned = Inr None, probed = [],
        warningMessages = [''Unable to resolve the repository to open.''] \<rparr> \<and>
   getRepository fs_root_repo ''/'' ''/a.ts'' File =
      \<lparr> returned = Inr None, probed = [],
        warningMessages = [''Unable to resolve the repository to open.''] \<rparr> \<and>
   probed (getRepository fs_root_repo ''/'' (absPath [''home'', ''a.ts'']) File) = [''/home/.git''] \<and>
   ''/.git'' \<notin> set (probed (getRepository fs_root_repo ''/'' (absPath [''home'', ''a.ts'']) File)) \<and>
   length (probed (getRepository fs_root_repo ''/'' ''/home/a.ts'' File)) \<le> 7"
proof -
  have s1: "(if Directory = File then path_dirname ''/'' else ''/'') = path_parse_root ''/''"
    by code_simp
  have s2: "(if File = File then path_dirname ''/a.ts'' else ''/a.ts'') = path_parse_root ''/a.ts''"
    by code_simp
  have pr: "\<forall>t \<in> set [''home'', ''a.ts'']. properName t"
    by (simp add: properName_def)
  have ev: "probed (getRepository fs_root_repo ''/'' (absPath [''home'', ''a.ts'']) File) = [''/home/.git'']"
    by code_simp
  have ln: "length (if File = File then path_dirname ''/home/a.ts'' else ''/home/a.ts'') + 2 = 7"
    by code_simp
  from root_never_probed[of Directory "''/''" fs_root_repo "''/''"] s1
  have a: "getRepository fs_root_repo ''/'' ''/'' Directory =
      \<lparr> returned = Inr None, probed = [],
        warningMessages = [''Unable to resolve the repository to open.''] \<rparr>"
    by blast
  from root_never_probed[of File "''/a.ts''" fs_root_repo "''/''"] s2
  have b: "getRepository fs_root_repo ''/'' ''/a.ts'' File =
      \<lparr> returned = Inr None, probed = [],
        warningMessages = [''Unable to resolve the repository to open.''] \<rparr>"
    by blast
  from root_never_probed[of File _ fs_root_repo "''/''" "[''home'', ''a.ts'']"] pr
  have c: "''/.git'' \<notin> set (probed (getRepository fs_root_repo ''/'' (absPath [''home'', ''a.ts'']) File))"
    by blast
  from root_never_probed[of File "''/home/a.ts''" fs_root_repo "''/''"] ln
  have d: "length (probed (getRepository fs_root_repo ''/'' ''/home/a.ts'' File)) \<le> 7"
    by simp
  from a b c d ev show ?thesis by blast
qed

subsection \<open>C5: reading a \<open>.git\<close> file\<close>

text \<open>
  C5, as stated: after the prefix \<open>gitdir: \<close> the target is the remainder of the
  content. With two spaces after the colon the remainder starts with a space and is
  not an absolute path; the program trims it and takes the absolute path.
\<close>

theorem redirect_remainder_counterexample:
  "gitDirPath_of ''/'' ''/repo/sub/.git'' ''gitdir:  /store/sub'' = ''/store/sub'' \<and>
   claimed_gitDirPath ''/'' ''/repo/sub/.git'' ''gitdir:  /store/sub'' = ''/repo/sub/ /store/sub''"
  by code_simp

text \<open>
  C5, amended: the content of a \<open>.git\<close> file is trimmed of surrounding white space; if
  it then starts with \<open>gitdir: \<close>, exactly so, the target is the remainder trimmed once
  more, otherwise the whole trimmed content; a target that is not absolute is
  resolved against the directory of the marker. The marker then resolves to the parent
  of the target if the target is an existing directory, and to nothing otherwise.
\<close>

theorem redirect_target_extraction:
  "(trim content = ''gitdir: '' @ rest \<longrightarrow>
      gitDirPath_of cwd g content =
        (if path_isAbsolute (trim rest) then trim rest
         else path_resolve cwd [path_dirname g, trim rest])) \<and>
   ((\<forall>r. trim content \<noteq> ''gitdir: '' @ r) \<longrightarrow>
      gitDirPath_of cwd g content =
        (if path_isAbsolute (trim content) then trim content
         else path_resolve cwd [path_dirname g, trim content])) \<and>
   (\<exists>a b. content = a @ trim content @ b \<and> (\<forall>c \<in> set (a @ b). isWhiteSpace c)) \<and>
   (trim content \<noteq> [] \<longrightarrow>
      \<not> isWhiteSpace (hd (trim content)) \<and> \<not> isWhiteSpace (last (trim content))) \<and>
   (fs g = Some (Reg (Some content)) \<longrightarrow>
      checkGitEntry fs cwd g =
        (if fs (gitDirPath_of cwd g content) = Some Dir
         then Inr (Some (path_dirname (gitDirPath_of cwd g content))) else Inr None))"
proof (intro conjI impI)
  assume "trim content = ''gitdir: '' @ rest"
  then show "gitDirPath_of cwd g content =
        (if path_isAbsolute (trim rest) then trim rest
         else path_resolve cwd [path_dirname g, trim rest])"
    by (simp add: gitDirPath_of_def startsWith_def substring_def)
next
  assume no: "\<forall>r. trim content \<noteq> ''gitdir: '' @ r"
  have "\<not> startsWith (trim content) ''gitdir: ''"
  proof
    assume "startsWith (trim content) ''gitdir: ''"
    then have "trim content = ''gitdir: '' @ drop (length ''gitdir: '') (trim content)"
      unfolding startsWith_def by (metis append_take_drop_id)
    with no show False by blast
  qed
  then show "gitDirPath_of cwd g content =
        (if path_isAbsolute (trim content) then trim content
         else path_resolve cwd [path_dirname g, trim content])"
    by (simp add: gitDirPath_of_def)
next
  show "\<exists>a b. content = a @ trim content @ b \<and> (\<forall>c \<in> set (a @ b). isWhiteSpace c)"
    by (rule trim_decompose)
next
  assume "trim content \<noteq> []"
  then show "\<not> isWhiteSpace (hd (trim content))" "\<not> isWhiteSpace (last (trim content))"
    using trim_ends by blast+
next
  assume "fs g = Some (Reg (Some content))"
  then show "checkGitEntry fs cwd g =
        (if fs (gitDirPath_of cwd g content) = Some Dir
         then Inr (Some (path_dirname (gitDirPath_of cwd g content))) else Inr None)"
    by (rule checkGitEntry_redirect)
qed

theorem redirect_target_extraction_witness:
  "trim (CHR 0x09 # '' gitdir:   ../../.git/modules/sub '' @ [CHR 0x0A]) =
     ''gitdir: '' @ ''  ../../.git/modules/sub'' \<and>
   gitDirPath_of ''/'' ''/repo/libs/sub/.git''
     (CHR 0x09 # '' gitdir:   ../../.git/modules/sub '' @ [CHR 0x0A]) = ''/repo/.git/modules/sub'' \<and>
   gitDirPath_of ''/'' ''/repo/libs/sub/.git'' ''GITDIR: /store/sub'' =
     ''/repo/libs/sub/GITDIR: /store/sub'' \<and>
   checkGitEntry fs_submodule ''/'' ''/repo/libs/sub/.git'' = Inr (Some ''/repo/.git/modules'') \<and>
   \<not> isWhiteSpace (hd (trim (CHR 0x09 # '' gitdir:   ../../.git/modules/sub '' @ [CHR 0x0A]))) \<and>
   \<not> isWhiteSpace (last (trim (CHR 0x09 # '' gitdir:   ../../.git/modules/sub '' @ [CHR 0x0A])))"
proof -
  let ?c = "CHR 0x09 # '' gitdir:   ../../.git/modules/sub '' @ [CHR 0x0A]"
  have t: "trim ?c = ''gitdir: '' @ ''  ../../.git/modules/sub''" by code_simp
  have e1: "(if path_isAbsolute (trim ''  ../../.git/modules/sub'')
             then trim ''  ../../.git/modules/sub''
             else path_resolve ''/'' [path_dirname ''/repo/libs/sub/.git'',
                    trim ''  ../../.git/modules/sub'']) = ''/repo/.git/modules/sub''"
    by code_simp
  from redirect_target_extraction[of ?c "''  ../../.git/modules/sub''" "''/''" "''/repo/libs/sub/.git''"]
    t e1
  have a: "gitDirPath_of ''/'' ''/repo/libs/sub/.git'' ?c = ''/repo/.git/modules/sub''"
    by simp
  have t2: "trim ''GITDIR: /store/sub'' = ''GITDIR: /store/sub''" by code_simp
  have np: "\<forall>r. trim ''GITDIR: /store/sub'' \<noteq> ''gitdir: '' @ r"
    unfolding t2 by simp
  have e2: "(if path_isAbsolute (trim ''GITDIR: /store/sub'') then trim ''GITDIR: /store/sub''
             else path_resolve ''/'' [path_dirname ''/repo/libs/sub/.git'',
                    trim ''GITDIR: /store/sub'']) = ''/repo/libs/sub/GITDIR: /store/sub''"
    by code_simp
  from redirect_target_extraction[of "''GITDIR: /store/sub''" _ "''/''" "''/repo/libs/sub/.git''"]
    np e2
  have b: "gitDirPath_of ''/'' ''/repo/libs/sub/.git'' ''GITDIR: /store/sub'' =
     ''/repo/libs/sub/GITDIR: /store/sub''"
    by simp
  have f: "fs_submodule ''/repo/libs/sub/.git'' = Some (Reg (Some ''gitdir: ../../.git/modules/sub''))"
    by code_simp
  have tgt: "gitDirPath_of ''/'' ''/repo/libs/sub/.git'' ''gitdir: ../../.git/modules/sub'' =
      ''/repo/.git/modules/sub''"
    by code_simp
  have fd: "fs_submodule ''/repo/.git/modules/sub'' = Some Dir" by code_simp
  have dn: "path_dirname ''/repo/.git/modules/sub'' = ''/repo/.git/modules''" by code_simp
  from redirect_target_extraction[of "''gitdir: ../../.git/modules/sub''" _ "''/''"
      "''/repo/libs/sub/.git''" fs_submodule] f tgt fd dn
  have c: "checkGitEntry fs_submodule ''/'' ''/repo/libs/sub/.git'' = Inr (Some ''/repo/.git/modules'')"
    by simp
  from t have tne: "trim ?c \<noteq> []" by simp
  with redirect_target_extraction[of ?c]
  have w: "\<not> isWhiteSpace (hd (trim ?c)) \<and> \<not> isWhiteSpace (last (trim ?c))"
    by blast
  from t a b c w show ?thesis by blast
qed

subsection \<open>C6: the relative path\<close>

text \<open>
  C6. With the repository at \<open>/repo\<close> and the editor's path \<open>/repo//a.ts\<close>,
  \<open>getRepository\<close> returns \<open>/repo\<close>, and the string replacement of lines 121 and 204
  leaves \<open>/a.ts\<close>: the relative path handed on starts with a separator. For the same
  path \<open>path.relative\<close>, which lines 144 and 229 use once a \<open>.git\<close> file is found, gives
  \<open>a.ts\<close>.
\<close>

theorem replace_leaves_separator:
  "returned (getRepository fs_plain ''/'' ''/repo//a.ts'' File) = Inr (Some ''/repo'') \<and>
   replace ''/repo//a.ts'' (''/repo'' @ ''/'') [] = ''/a.ts'' \<and>
   fst (getFileDetails fs_plain ''/''
     \<lparr> document_uri_path = ''/repo//a.ts'', selection_start_line = 0,
       selection_end_line = 0 \<rparr>) =
     Inr (Some \<lparr> path = ''/a.ts'', selectionStart = 1, selectionEnd = 1,
                  repository = ''/repo'' \<rparr>) \<and>
   fst (openFile fs_plain ''/'' ''/repo//a.ts'' blame) =
     Inr (Some \<lparr> args = [''blame'', ''/a.ts''], workingDirectory = ''/repo'' \<rparr>) \<and>
   path_isAbsolute ''/a.ts'' \<and>
   path_relative ''/'' ''/repo'' ''/repo//a.ts'' = ''a.ts'' \<and>
   fst (getFileDetails fs_gitfile ''/''
     \<lparr> document_uri_path = ''/repo//a.ts'', selection_start_line = 0,
       selection_end_line = 0 \<rparr>) =
     Inr (Some \<lparr> path = ''a.ts'', selectionStart = 1, selectionEnd = 1,
                  repository = ''/repo/'' \<rparr>)"
  by code_simp

subsection \<open>C7: what a resolved root is\<close>

text \<open>
  C7. The \<open>.git\<close> file of \<open>/work/sub\<close> names the metadata directory \<open>/store/sub\<close> by the
  absolute path \<open>/store/sub/.\<close>. The program takes an absolute target as it is written
  and returns its \<open>dirname\<close>, \<open>/store/sub\<close>: the metadata directory itself and not its
  parent, and a directory that holds no \<open>.git\<close>. Where the same directory is named by a
  relative path, \<open>path.resolve\<close> normalises the target and the parent \<open>/store\<close> is
  returned.
\<close>

theorem redirect_root_is_metadata_directory:
  "fs_dot_target ''/work/sub/.git'' = Some (Reg (Some ''gitdir: /store/sub/.'')) \<and>
   gitDirPath_of ''/'' ''/work/sub/.git'' ''gitdir: /store/sub/.'' = ''/store/sub/.'' \<and>
   fs_dot_target ''/store/sub/.'' = Some Dir \<and>
   path_resolve ''/'' [''/store/sub/.''] = ''/store/sub'' \<and>
   returned (getRepository fs_dot_target ''/'' ''/work/sub/x.ts'' File) = Inr (Some ''/store/sub'') \<and>
   fs_dot_target (path_join ''/store/sub'' ''.git'') = None \<and>
   gitDirPath_of ''/'' ''/work/sub/.git'' ''gitdir: ../../store/sub/.'' = ''/store/sub'' \<and>
   returned (getRepository fs_dot_target_relative ''/'' ''/work/sub/x.ts'' File) =
     Inr (Some ''/store'')"
  by code_simp

subsection \<open>C8: errors stay inside\<close>

text \<open>
  C8. The \<open>statSync\<close> of lines 30, 130 and 213 stands outside any \<open>try\<close>. Where the
  marker of \<open>/repo\<close> is removed after \<open>existsSync\<close> has found it, the exception leaves
  \<open>getRepository\<close> and \<open>getFileDetails\<close>; where the \<open>stat\<close> of a marker above the
  repository is refused, \<open>getRepository\<close> returns the repository and the second loop of
  \<open>getFileDetails\<close> and \<open>openFile\<close> throws. The same failure on the target of a \<open>.git\<close>
  file (line 60) and a failure to read the file (line 36) happen inside the \<open>try\<close>
  block: they are caught, and the walk goes on to the repository above.
\<close>

theorem stat_failure_propagates:
  "existsSync fs_marker_vanishes ''/repo/.git'' \<and>
   statSync fs_marker_vanishes ''/repo/.git'' = Inl ENOENT \<and>
   returned (getRepository fs_marker_vanishes ''/'' ''/repo/a.ts'' File) = Inl ENOENT \<and>
   fst (getFileDetails fs_marker_vanishes ''/''
     \<lparr> document_uri_path = ''/repo/a.ts'', selection_start_line = 0,
       selection_end_line = 0 \<rparr>) = Inl ENOENT \<and>
   returned (getRepository fs_outer_refused ''/'' ''/outer/repo/a.ts'' File) =
     Inr (Some ''/outer/repo'') \<and>
   fst (getFileDetails fs_outer_refused ''/''
     \<lparr> document_uri_path = ''/outer/repo/a.ts'', selection_start_line = 0,
       selection_end_line = 0 \<rparr>) = Inl EACCES \<and>
   fst (openFile fs_outer_refused ''/'' ''/outer/repo/a.ts'' blame) = Inl EACCES \<and>
   submoduleGitFile fs_target_vanishes ''/'' ''/repo/sub/.git'' = Inl ENOENT \<and>
   checkGitEntry fs_target_vanishes ''/'' ''/repo/sub/.git'' = Inr None \<and>
   returned (getRepository fs_target_vanishes ''/'' ''/repo/sub/a.ts'' File) =
     Inr (Some ''/repo'') \<and>
   submoduleGitFile fs_unreadable ''/'' ''/repo/sub/.git'' = Inl EACCES \<and>
   returned (getRepository fs_unreadable ''/'' ''/repo/sub/a.ts'' File) = Inr (Some ''/repo'')"
  by code_simp

subsection \<open>C9: the warning of a failed search\<close>

text \<open>
  C9, as stated: when the walk finds nothing, \<open>getRepository\<close> returns nothing and
  shows no warning itself. On a file system without any marker it returns nothing and
  has shown the warning of line 87.
\<close>

theorem locator_warns_counterexample:
  "returned (getRepository Map.empty ''/'' ''/home/a.ts'' File) = Inr None \<and>
   warningMessages (getRepository Map.empty ''/'' ''/home/a.ts'' File) \<noteq> []"
  by code_simp

text \<open>
  C9, amended: \<open>getRepository\<close> shows exactly one warning, "Unable to resolve the
  repository to open.", when it returns nothing, and none when it returns a
  repository; \<open>getFileDetails\<close> and \<open>openFile\<close> (on a path that is not empty) add no
  warning of their own.
\<close>

theorem locator_warns_once:
  "warningMessages (getRepository fs cwd element elementType) =
     (if returned (getRepository fs cwd element elementType) = Inr None
      then [''Unable to resolve the repository to open.''] else []) \<and>
   snd (getFileDetails fs cwd editor) =
     warningMessages (getRepository fs cwd (document_uri_path editor) File) \<and>
   (filePath \<noteq> [] \<longrightarrow>
    snd (openFile fs cwd filePath act) = warningMessages (getRepository fs cwd filePath File))"
proof (intro conjI impI)
  show "warningMessages (getRepository fs cwd element elementType) =
     (if returned (getRepository fs cwd element elementType) = Inr None
      then [''Unable to resolve the repository to open.''] else [])"
    by (rule warningMessages_getRepository)
  show "snd (getFileDetails fs cwd editor) =
     warningMessages (getRepository fs cwd (document_uri_path editor) File)"
    by (simp add: getFileDetails_def Let_def split: sum.splits option.splits)
  show "snd (openFile fs cwd filePath act) = warningMessages (getRepository fs cwd filePath File)"
    if "filePath \<noteq> []"
    using that by (simp add: openFile_def Let_def split: sum.splits option.splits)
qed

theorem locator_warns_once_witness:
  "warningMessages (getRepository fs_plain ''/'' ''/home/a.ts'' File) =
     [''Unable to resolve the repository to open.''] \<and>
   warningMessages (getRepository fs_plain ''/'' ''/repo/src/a.ts'' File) = [] \<and>
   snd (openFile fs_plain ''/'' ''/home/a.ts'' blame) =
     [''Unable to resolve the repository to open.'']"
proof -
  have none: "returned (getRepository fs_plain ''/'' ''/home/a.ts'' File) = Inr None"
    by code_simp
  have found: "returned (getRepository fs_plain ''/'' ''/repo/src/a.ts'' File) = Inr (Some ''/repo'')"
    by code_simp
  have ne: "''/home/a.ts'' \<noteq> []" by simp
  from locator_warns_once[of fs_plain "''/''" "''/home/a.ts''" File editor "''/home/a.ts''" blame
          for editor] none ne
  have a: "warningMessages (getRepository fs_plain ''/'' ''/home/a.ts'' File) =
             [''Unable to resolve the repository to open.'']"
    and c: "snd (openFile fs_plain ''/'' ''/home/a.ts'' blame) =
             [''Unable to resolve the repository to open.'']"
    by simp_all
  from locator_warns_once[of fs_plain "''/''" "''/repo/src/a.ts''" File] found
  have b: "warningMessages (getRepository fs_plain ''/'' ''/repo/src/a.ts'' File) = []"
    by simp
  from a b c show ?thesis by simp
qed

subsection \<open>C10: the second loop overrides the repository\<close>



end
